theory Spec2Isabelle
  imports Main "HOL-Library.Word" "HOL-Library.Sublist"
begin

section \<open>The DOM node of the HTML parser\<close>

text \<open>
  \<^verbatim>\<open>query.go\<close> walks values of \<^verbatim>\<open>*html.Node\<close> (package golang.org/x/net/html).
  A pointer is an address or nil; the nodes live in a heap that the navigator only
  reads. The struct has the five links, the kind (\<^verbatim>\<open>Type\<close>, a \<^verbatim>\<open>uint32\<close>), the
  \<^verbatim>\<open>Data\<close> string and the attribute slice; every kind of node carries all fields.
  Its fields \<^verbatim>\<open>DataAtom\<close> and \<^verbatim>\<open>Namespace\<close> are never read by \<^verbatim>\<open>query.go\<close> and are
  left out.
\<close>

type_synonym ref = nat

type_synonym html_NodeType = "32 word"

definition html_ErrorNode :: html_NodeType where "html_ErrorNode = 0"
definition html_TextNode :: html_NodeType where "html_TextNode = 1"
definition html_DocumentNode :: html_NodeType where "html_DocumentNode = 2"
definition html_ElementNode :: html_NodeType where "html_ElementNode = 3"
definition html_CommentNode :: html_NodeType where "html_CommentNode = 4"
definition html_DoctypeNode :: html_NodeType where "html_DoctypeNode = 5"

record Attribute =
  Namespace :: string
  Key :: string
  Val :: string

record Node =
  Parent :: "ref option"
  FirstChild :: "ref option"
  LastChild :: "ref option"
  PrevSibling :: "ref option"
  NextSibling :: "ref option"
  Type :: html_NodeType
  Data :: string
  Attr :: "Attribute list"

type_synonym heap = "ref \<Rightarrow> Node"

text \<open>What a Go run-time panic carries, as far as the navigator can raise one.\<close>

datatype panic =
  NilPointerDereference
  | IndexOutOfRange int nat
  | UnknownNodeType html_NodeType
  | TypeAssertionFailed

section \<open>The navigator\<close>

datatype xpath_NodeType =
  xpath_RootNode
  | xpath_ElementNode
  | xpath_AttributeNode
  | xpath_TextNode
  | xpath_CommentNode

text \<open>
  \<^verbatim>\<open>type NodeNavigator struct { root, curr *html.Node; attr int }\<close>.
  The only arithmetic on \<^verbatim>\<open>attr\<close> is the increment of \<^verbatim>\<open>MoveToNextAttribute\<close>, taken
  when \<^verbatim>\<open>attr < len(Attr) - 1\<close>, so it cannot wrap and \<open>int\<close> models it.
\<close>

record NodeNavigator =
  root :: "ref option"
  curr :: "ref option"
  attr :: int

definition CreateXPathNavigator :: "ref option \<Rightarrow> NodeNavigator" where
  "CreateXPathNavigator top_node = \<lparr>root = top_node, curr = top_node, attr = - 1\<rparr>"

definition Current :: "NodeNavigator \<Rightarrow> ref option" where
  "Current h = curr h"

definition NodeType :: "heap \<Rightarrow> NodeNavigator \<Rightarrow> panic + xpath_NodeType" where
  "NodeType hp h =
     (case curr h of
        None \<Rightarrow> Inl NilPointerDereference
      | Some c \<Rightarrow>
          if Type (hp c) = html_CommentNode then Inr xpath_CommentNode
          else if Type (hp c) = html_TextNode then Inr xpath_TextNode
          else if Type (hp c) = html_DocumentNode then Inr xpath_RootNode
          else if Type (hp c) = html_ElementNode then
            (if attr h \<noteq> - 1 then Inr xpath_AttributeNode else Inr xpath_ElementNode)
          else if Type (hp c) = html_DoctypeNode then Inr xpath_RootNode
          else Inl (UnknownNodeType (Type (hp c))))"

text \<open>Indexing the attribute slice: out of range is a panic, as in Go.\<close>

definition index_attr :: "Attribute list \<Rightarrow> int \<Rightarrow> panic + Attribute" where
  "index_attr as i =
     (if 0 \<le> i \<and> i < int (length as) then Inr (as ! nat i)
      else Inl (IndexOutOfRange i (length as)))"

definition LocalName :: "heap \<Rightarrow> NodeNavigator \<Rightarrow> panic + string" where
  "LocalName hp h =
     (if attr h \<noteq> - 1 then
        (case curr h of
           None \<Rightarrow> Inl NilPointerDereference
         | Some c \<Rightarrow>
             (case index_attr (Attr (hp c)) (attr h) of
                Inl e \<Rightarrow> Inl e
              | Inr a \<Rightarrow> Inr (Key a)))
      else
        (case curr h of
           None \<Rightarrow> Inl NilPointerDereference
         | Some c \<Rightarrow> Inr (Data (hp c))))"

definition Prefix :: "NodeNavigator \<Rightarrow> string" where
  "Prefix h = []"

definition Copy :: "NodeNavigator \<Rightarrow> NodeNavigator" where
  "Copy h = h"

definition MoveToRoot :: "NodeNavigator \<Rightarrow> NodeNavigator" where
  "MoveToRoot h = h\<lparr>curr := root h\<rparr>"

definition MoveToParent :: "heap \<Rightarrow> NodeNavigator \<Rightarrow> panic + bool \<times> NodeNavigator" where
  "MoveToParent hp h =
     (if attr h \<noteq> - 1 then Inr (True, h\<lparr>attr := - 1\<rparr>)
      else
        (case curr h of
           None \<Rightarrow> Inl NilPointerDereference
         | Some c \<Rightarrow>
             (case Parent (hp c) of
                Some node \<Rightarrow> Inr (True, h\<lparr>curr := Some node\<rparr>)
              | None \<Rightarrow> Inr (False, h))))"

definition MoveToNextAttribute :: "heap \<Rightarrow> NodeNavigator \<Rightarrow> panic + bool \<times> NodeNavigator" where
  "MoveToNextAttribute hp h =
     (case curr h of
        None \<Rightarrow> Inl NilPointerDereference
      | Some c \<Rightarrow>
          if attr h \<ge> int (length (Attr (hp c))) - 1 then Inr (False, h)
          else Inr (True, h\<lparr>attr := attr h + 1\<rparr>))"

definition MoveToChild :: "heap \<Rightarrow> NodeNavigator \<Rightarrow> panic + bool \<times> NodeNavigator" where
  "MoveToChild hp h =
     (if attr h \<noteq> - 1 then Inr (False, h)
      else
        (case curr h of
           None \<Rightarrow> Inl NilPointerDereference
         | Some c \<Rightarrow>
             (case FirstChild (hp c) of
                Some node \<Rightarrow> Inr (True, h\<lparr>curr := Some node\<rparr>)
              | None \<Rightarrow> Inr (False, h))))"

definition MoveToNext :: "heap \<Rightarrow> NodeNavigator \<Rightarrow> panic + bool \<times> NodeNavigator" where
  "MoveToNext hp h =
     (if attr h \<noteq> - 1 then Inr (False, h)
      else
        (case curr h of
           None \<Rightarrow> Inl NilPointerDereference
         | Some c \<Rightarrow>
             (case NextSibling (hp c) of
                Some node \<Rightarrow> Inr (True, h\<lparr>curr := Some node\<rparr>)
              | None \<Rightarrow> Inr (False, h))))"

definition MoveToPrevious :: "heap \<Rightarrow> NodeNavigator \<Rightarrow> panic + bool \<times> NodeNavigator" where
  "MoveToPrevious hp h =
     (if attr h \<noteq> - 1 then Inr (False, h)
      else
        (case curr h of
           None \<Rightarrow> Inl NilPointerDereference
         | Some c \<Rightarrow>
             (case PrevSibling (hp c) of
                Some node \<Rightarrow> Inr (True, h\<lparr>curr := Some node\<rparr>)
              | None \<Rightarrow> Inr (False, h))))"

text \<open>
  The loop of \<^verbatim>\<open>MoveToFirst\<close> follows \<^verbatim>\<open>PrevSibling\<close> until it is nil. On a heap
  whose links run in a circle it never ends: \<open>None\<close> is that outcome.
\<close>

partial_function (option) first_loop :: "heap \<Rightarrow> ref \<Rightarrow> ref option" where
  "first_loop hp c =
     (case PrevSibling (hp c) of
        None \<Rightarrow> Some c
      | Some node \<Rightarrow> first_loop hp node)"

definition MoveToFirst ::
  "heap \<Rightarrow> NodeNavigator \<Rightarrow> (panic + bool \<times> NodeNavigator) option" where
  "MoveToFirst hp h =
     (if attr h \<noteq> - 1 then Some (Inr (False, h))
      else
        (case curr h of
           None \<Rightarrow> Some (Inl NilPointerDereference)
         | Some c \<Rightarrow>
             if PrevSibling (hp c) = None then Some (Inr (False, h))
             else
               (case first_loop hp c of
                  None \<Rightarrow> None
                | Some c' \<Rightarrow> Some (Inr (True, h\<lparr>curr := Some c'\<rparr>)))))"

text \<open>
  The argument of \<^verbatim>\<open>MoveTo\<close> is the interface \<^verbatim>\<open>xpath.NodeNavigator\<close>: a
  \<^verbatim>\<open>*NodeNavigator\<close> of this package, which points to a navigator or is nil (reading
  \<^verbatim>\<open>node.root\<close> then panics), or a value of some other dynamic type (the nil interface
  among them), for which the type assertion gives \<^verbatim>\<open>ok = false\<close>.
\<close>

datatype xpath_NodeNavigator =
  HtmlNavigator NodeNavigator
  | NilHtmlNavigator
  | ForeignNavigator

definition MoveTo ::
  "NodeNavigator \<Rightarrow> xpath_NodeNavigator \<Rightarrow> panic + bool \<times> NodeNavigator" where
  "MoveTo h other =
     (case other of
        ForeignNavigator \<Rightarrow> Inr (False, h)
      | NilHtmlNavigator \<Rightarrow> Inl NilPointerDereference
      | HtmlNavigator node \<Rightarrow>
          if root node \<noteq> root h then Inr (False, h)
          else Inr (True, h\<lparr>curr := curr node, attr := attr node\<rparr>))"

section \<open>The projection helpers\<close>

text \<open>
  \<^verbatim>\<open>InnerText\<close> runs the closure \<^verbatim>\<open>output\<close> (here \<open>output_node\<close>) with a
  \<^verbatim>\<open>bytes.Buffer\<close>, threaded as the string written so far. The closure calls itself for
  every child, found by following \<^verbatim>\<open>NextSibling\<close>; on a heap with circular links neither
  the recursion nor the loop ends, so both take fuel, one unit for each call and each turn
  of the loop, and \<open>None\<close> is running out of it.
\<close>

fun output_node :: "nat \<Rightarrow> heap \<Rightarrow> string \<Rightarrow> ref \<Rightarrow> string option"
  and output_loop :: "nat \<Rightarrow> heap \<Rightarrow> string \<Rightarrow> ref option \<Rightarrow> string option" where
  "output_node 0 hp buf n = None"
| "output_node (Suc k) hp buf n =
     (if Type (hp n) = html_TextNode then Some (buf @ Data (hp n))
      else if Type (hp n) = html_CommentNode then Some buf
      else output_loop k hp buf (FirstChild (hp n)))"
| "output_loop 0 hp buf child = None"
| "output_loop (Suc k) hp buf None = Some buf"
| "output_loop (Suc k) hp buf (Some child) =
     (case output_node k hp buf child of
        None \<Rightarrow> None
      | Some buf' \<Rightarrow> output_loop k hp buf' (NextSibling (hp child)))"

definition InnerText :: "nat \<Rightarrow> heap \<Rightarrow> ref option \<Rightarrow> (panic + string) option" where
  "InnerText k hp n =
     (case n of
        None \<Rightarrow> Some (Inl NilPointerDereference)
      | Some r \<Rightarrow> map_option Inr (output_node k hp [] r))"

definition Value :: "nat \<Rightarrow> heap \<Rightarrow> NodeNavigator \<Rightarrow> (panic + string) option" where
  "Value k hp h =
     (case curr h of
        None \<Rightarrow> Some (Inl NilPointerDereference)
      | Some c \<Rightarrow>
          if Type (hp c) = html_CommentNode then Some (Inr (Data (hp c)))
          else if Type (hp c) = html_ElementNode then
            (if attr h \<noteq> - 1 then
               (case index_attr (Attr (hp c)) (attr h) of
                  Inl e \<Rightarrow> Some (Inl e)
                | Inr a \<Rightarrow> Some (Inr (Val a)))
             else InnerText k hp (curr h))
          else if Type (hp c) = html_TextNode then Some (Inr (Data (hp c)))
          else Some (Inr []))"

fun SelectAttr_loop :: "Attribute list \<Rightarrow> string \<Rightarrow> string" where
  "SelectAttr_loop [] name = []"
| "SelectAttr_loop (a # as) name = (if Key a = name then Val a else SelectAttr_loop as name)"

definition SelectAttr :: "heap \<Rightarrow> ref option \<Rightarrow> string \<Rightarrow> string" where
  "SelectAttr hp n name =
     (case n of None \<Rightarrow> [] | Some r \<Rightarrow> SelectAttr_loop (Attr (hp r)) name)"

text \<open>
  \<^verbatim>\<open>OutputHTML\<close> hands each node to \<^verbatim>\<open>html.Render\<close>, a function of the parser package,
  and drops the error it returns. The renderer is a parameter \<open>R\<close> here: given the
  heap, the buffer and the node it returns the buffer afterwards (\<open>None\<close> when it does
  not return). The loop over the children is the code's own.
\<close>

type_synonym renderer = "heap \<Rightarrow> string \<Rightarrow> ref option \<Rightarrow> (panic + string) option"

partial_function (option) OutputHTML_loop ::
  "renderer \<Rightarrow> heap \<Rightarrow> ref option \<Rightarrow> string \<Rightarrow> (panic + string) option" where
  "OutputHTML_loop R hp n buf =
     (case n of
        None \<Rightarrow> Some (Inr buf)
      | Some c \<Rightarrow>
          Option.bind (R hp buf (Some c))
            (\<lambda>r. case r of
                   Inl e \<Rightarrow> Some (Inl e)
                 | Inr buf' \<Rightarrow> OutputHTML_loop R hp (NextSibling (hp c)) buf'))"

definition OutputHTML ::
  "renderer \<Rightarrow> heap \<Rightarrow> ref option \<Rightarrow> bool \<Rightarrow> (panic + string) option" where
  "OutputHTML R hp n self =
     (if self then R hp [] n
      else
        (case n of
           None \<Rightarrow> Some (Inl NilPointerDereference)
         | Some r \<Rightarrow> OutputHTML_loop R hp (FirstChild (hp r)) []))"

section \<open>The query facade\<close>

text \<open>
  \<^verbatim>\<open>Find\<close>, \<^verbatim>\<open>FindOne\<close> and \<^verbatim>\<open>FindEach\<close> drive the XPath engine, which is another
  package: \<^verbatim>\<open>xpath.Compile\<close>, \<^verbatim>\<open>Select\<close> and the iterator's \<^verbatim>\<open>MoveNext\<close> and
  \<^verbatim>\<open>Current\<close> are the fields of a record the facade is given. The iterator is a state
  \<open>'it\<close>; \<^verbatim>\<open>MoveNext\<close> returns its answer and the next state.
\<close>

record ('err, 'exp, 'it) engine =
  xpath_Compile :: "string \<Rightarrow> 'err + 'exp"
  Select :: "'exp \<Rightarrow> NodeNavigator \<Rightarrow> 'it"
  MoveNext :: "'it \<Rightarrow> bool \<times> 'it"
  iter_Current :: "'it \<Rightarrow> xpath_NodeNavigator"

text \<open>\<^verbatim>\<open>(t.Current().(*NodeNavigator)).curr\<close>: the assertion panics on another type.\<close>

definition unwrap :: "xpath_NodeNavigator \<Rightarrow> panic + ref option" where
  "unwrap p =
     (case p of
        HtmlNavigator nav \<Rightarrow> Inr (curr nav)
      | NilHtmlNavigator \<Rightarrow> Inl NilPointerDereference
      | ForeignNavigator \<Rightarrow> Inl TypeAssertionFailed)"

partial_function (option) Find_loop ::
  "('err, 'exp, 'it) engine \<Rightarrow> 'it \<Rightarrow> ref option list \<Rightarrow> (panic + ref option list) option" where
  "Find_loop E t elems =
     (if fst (MoveNext E t) then
        (let r = unwrap (iter_Current E (snd (MoveNext E t))) in
         case r of
           Inl e \<Rightarrow> Some (Inl e)
         | Inr n \<Rightarrow> Find_loop E (snd (MoveNext E t)) (elems @ [n]))
      else Some (Inr elems))"

definition Find ::
  "('err, 'exp, 'it) engine \<Rightarrow> ref option \<Rightarrow> string
    \<Rightarrow> (panic + 'err + ref option list) option" where
  "Find E top_node expr =
     (case xpath_Compile E expr of
        Inl err \<Rightarrow> Some (Inr (Inl err))
      | Inr exp \<Rightarrow>
          (case Find_loop E (Select E exp (CreateXPathNavigator top_node)) [] of
             None \<Rightarrow> None
           | Some (Inl e) \<Rightarrow> Some (Inl e)
           | Some (Inr elems) \<Rightarrow> Some (Inr (Inr elems))))"

definition FindOne ::
  "('err, 'exp, 'it) engine \<Rightarrow> ref option \<Rightarrow> string \<Rightarrow> panic + 'err + ref option" where
  "FindOne E top_node expr =
     (case xpath_Compile E expr of
        Inl err \<Rightarrow> Inr (Inl err)
      | Inr exp \<Rightarrow>
          (let t = Select E exp (CreateXPathNavigator top_node) in
           if fst (MoveNext E t) then
             (case unwrap (iter_Current E (snd (MoveNext E t))) of
                Inl e \<Rightarrow> Inl e
              | Inr n \<Rightarrow> Inr (Inr n))
           else Inr (Inr None)))"

text \<open>
  The callback of \<^verbatim>\<open>FindEach\<close> is run for its effect: it is a function on a state
  \<open>'s\<close> of the caller's, and \<^verbatim>\<open>FindEach\<close> returns that state with its error
  (\<open>None\<close> for Go's nil error).
\<close>

partial_function (option) FindEach_loop ::
  "('err, 'exp, 'it) engine \<Rightarrow> (int \<Rightarrow> ref option \<Rightarrow> 's \<Rightarrow> 's) \<Rightarrow> 'it \<Rightarrow> int \<Rightarrow> 's
    \<Rightarrow> (panic + 's) option" where
  "FindEach_loop E cb t i s =
     (if fst (MoveNext E t) then
        (let r = unwrap (iter_Current E (snd (MoveNext E t))) in
         case r of
           Inl e \<Rightarrow> Some (Inl e)
         | Inr n \<Rightarrow> FindEach_loop E cb (snd (MoveNext E t)) (i + 1) (cb i n s))
      else Some (Inr s))"

definition FindEach ::
  "('err, 'exp, 'it) engine \<Rightarrow> ref option \<Rightarrow> string \<Rightarrow> (int \<Rightarrow> ref option \<Rightarrow> 's \<Rightarrow> 's) \<Rightarrow> 's
    \<Rightarrow> (panic + 'err option \<times> 's) option" where
  "FindEach E top_node expr cb s =
     (case xpath_Compile E expr of
        Inl err \<Rightarrow> Some (Inr (Some err, s))
      | Inr exp \<Rightarrow>
          (case FindEach_loop E cb (Select E exp (CreateXPathNavigator top_node)) 0 s of
             None \<Rightarrow> None
           | Some (Inl e) \<Rightarrow> Some (Inl e)
           | Some (Inr s') \<Rightarrow> Some (Inr (None, s'))))"

section \<open>What the properties are stated with\<close>

subsection \<open>Cursor invariant and repeated calls\<close>

text \<open>The invariant of the cursor: \<open>attr\<close> is not \<open>-1\<close> only on an element.\<close>

definition attr_inv :: "heap \<Rightarrow> NodeNavigator \<Rightarrow> bool" where
  "attr_inv hp h =
     (attr h = - 1 \<or>
      (case curr h of None \<Rightarrow> False | Some c \<Rightarrow> Type (hp c) = html_ElementNode))"

text \<open>
  \<open>n\<close> calls of \<^verbatim>\<open>MoveToNextAttribute\<close> one after the other: the answers in order and
  the cursor after the last call.
\<close>

fun next_attribute_calls ::
  "nat \<Rightarrow> heap \<Rightarrow> NodeNavigator \<Rightarrow> panic + bool list \<times> NodeNavigator" where
  "next_attribute_calls 0 hp h = Inr ([], h)"
| "next_attribute_calls (Suc n) hp h =
     (case MoveToNextAttribute hp h of
        Inl e \<Rightarrow> Inl e
      | Inr (ok, h') \<Rightarrow>
          (case next_attribute_calls n hp h' of
             Inl e \<Rightarrow> Inl e
           | Inr (oks, h'') \<Rightarrow> Inr (ok # oks, h'')))"

subsection \<open>Sibling chains\<close>

text \<open>
  \<open>sibling_chain hp xs\<close>: the nodes \<open>xs\<close> are siblings in document order, as far as
  \<^verbatim>\<open>PrevSibling\<close> tells: the first has none, every other one has the node before it.
\<close>

fun prev_linked :: "heap \<Rightarrow> ref option \<Rightarrow> ref list \<Rightarrow> bool" where
  "prev_linked hp p [] = True"
| "prev_linked hp p (x # xs) = (PrevSibling (hp x) = p \<and> prev_linked hp (Some x) xs)"

definition sibling_chain :: "heap \<Rightarrow> ref list \<Rightarrow> bool" where
  "sibling_chain hp xs = prev_linked hp None xs"

subsection \<open>Trees in the heap\<close>

text \<open>
  A finite tree of nodes, and what it means that the heap holds it at an address: kind,
  data and attributes agree, and the children are the chain that starts at
  \<^verbatim>\<open>FirstChild\<close> and follows \<^verbatim>\<open>NextSibling\<close> to nil. Only the links that the helpers read
  are constrained.
\<close>

datatype dom =
  Dom (kind: html_NodeType) (content: string) (attributes: "Attribute list") (children: "dom list")

fun tree_at :: "heap \<Rightarrow> ref \<Rightarrow> dom \<Rightarrow> bool"
  and chain_at :: "heap \<Rightarrow> ref option \<Rightarrow> dom list \<Rightarrow> bool" where
  "tree_at hp n (Dom k d as cs) =
     (Type (hp n) = k \<and> Data (hp n) = d \<and> Attr (hp n) = as \<and> chain_at hp (FirstChild (hp n)) cs)"
| "chain_at hp p [] = (p = None)"
| "chain_at hp p (t # ts) =
     (case p of
        None \<Rightarrow> False
      | Some c \<Rightarrow> tree_at hp c t \<and> chain_at hp (NextSibling (hp c)) ts)"

fun nodes :: "dom \<Rightarrow> nat" where
  "nodes (Dom k d as cs) = Suc (sum_list (map nodes cs))"

text \<open>Fuel that is enough for a walk over the tree: two units for each node.\<close>

definition fuel :: "dom \<Rightarrow> nat" where
  "fuel t = 2 * nodes t"

text \<open>All nodes of the subtree, in document order.\<close>

fun subtree :: "dom \<Rightarrow> dom list" where
  "subtree (Dom k d as cs) = Dom k d as cs # concat (map subtree cs)"

text \<open>
  The parser gives children to documents and elements only; text nodes, comments and
  doctypes are leaves. \<open>text_leaves\<close> asks it of the text nodes, \<open>leaf_kinds\<close> of every
  kind but document and element.
\<close>

fun text_leaves :: "dom \<Rightarrow> bool" where
  "text_leaves (Dom k d as cs) = ((k = html_TextNode \<longrightarrow> cs = []) \<and> list_all text_leaves cs)"

fun leaf_kinds :: "dom \<Rightarrow> bool" where
  "leaf_kinds (Dom k d as cs) =
     ((k = html_DocumentNode \<or> k = html_ElementNode \<or> cs = []) \<and> list_all leaf_kinds cs)"

subsection \<open>Text extraction, in the words of the specification\<close>

text \<open>
  The specification: the \<^verbatim>\<open>Data\<close> of every Text node of the subtree, in document order,
  skipping Comment nodes and their subtrees. \<open>visible\<close> is the subtree without the
  comments' subtrees, \<open>spec_text\<close> the concatenation.
\<close>

fun visible :: "dom \<Rightarrow> dom list" where
  "visible (Dom k d as cs) =
     (if k = html_CommentNode then [] else Dom k d as cs # concat (map visible cs))"

definition spec_text :: "dom \<Rightarrow> string" where
  "spec_text t = concat (map content (filter (\<lambda>d. kind d = html_TextNode) (visible t)))"

text \<open>The closure \<^verbatim>\<open>output\<close> read on the tree: what it appends to the buffer.\<close>

fun text_of :: "dom \<Rightarrow> string" where
  "text_of (Dom k d as cs) =
     (if k = html_TextNode then d
      else if k = html_CommentNode then []
      else concat (map text_of cs))"

text \<open>The same tree with every comment emptied: no data, no attributes, no children.\<close>

fun blank_comments :: "dom \<Rightarrow> dom" where
  "blank_comments (Dom k d as cs) =
     (if k = html_CommentNode then Dom k [] [] [] else Dom k d as (map blank_comments cs))"

subsection \<open>The renderer\<close>

text \<open>
  Modelled from the spec: \<^verbatim>\<open>html.Render\<close> belongs to the parser package
  (golang.org/x/net/html) and is not among the sources. The specification asks of
  serialization that it renders a node back to markup text, with the node's own tag, and
  that it reproduces comments verbatim. The model writes an element as its start tag
  with the attributes, its children and its end tag, a document as its children, a text
  node as its data, a comment as its data between the comment delimiters and a doctype as
  a declaration; for any other kind it writes nothing (the error the renderer would
  return is dropped by \<^verbatim>\<open>OutputHTML\<close>). Escaping is not described and not modelled.
\<close>

fun render_attrs :: "Attribute list \<Rightarrow> string" where
  "render_attrs [] = []"
| "render_attrs (a # as) = '' '' @ Key a @ ''=\"'' @ Val a @ ''\"'' @ render_attrs as"

fun render_node :: "nat \<Rightarrow> heap \<Rightarrow> string \<Rightarrow> ref \<Rightarrow> string option"
  and render_children :: "nat \<Rightarrow> heap \<Rightarrow> string \<Rightarrow> ref option \<Rightarrow> string option" where
  "render_node 0 hp buf n = None"
| "render_node (Suc k) hp buf n =
     (if Type (hp n) = html_TextNode then Some (buf @ Data (hp n))
      else if Type (hp n) = html_CommentNode then Some (buf @ ''<!--'' @ Data (hp n) @ ''-->'')
      else if Type (hp n) = html_DoctypeNode then Some (buf @ ''<!DOCTYPE '' @ Data (hp n) @ ''>'')
      else if Type (hp n) = html_DocumentNode then render_children k hp buf (FirstChild (hp n))
      else if Type (hp n) = html_ElementNode then
        (case render_children k hp
                (buf @ ''<'' @ Data (hp n) @ render_attrs (Attr (hp n)) @ ''>'')
                (FirstChild (hp n)) of
           None \<Rightarrow> None
         | Some buf' \<Rightarrow> Some (buf' @ ''</'' @ Data (hp n) @ ''>''))
      else Some buf)"
| "render_children 0 hp buf child = None"
| "render_children (Suc k) hp buf None = Some buf"
| "render_children (Suc k) hp buf (Some child) =
     (case render_node k hp buf child of
        None \<Rightarrow> None
      | Some buf' \<Rightarrow> render_children k hp buf' (NextSibling (hp child)))"

definition Render :: "nat \<Rightarrow> renderer" where
  "Render k hp buf n =
     (case n of
        None \<Rightarrow> Some (Inl NilPointerDereference)
      | Some r \<Rightarrow> map_option Inr (render_node k hp buf r))"

text \<open>The markup of a tree, as the modelled renderer writes it.\<close>

fun markup :: "dom \<Rightarrow> string" where
  "markup (Dom k d as cs) =
     (if k = html_TextNode then d
      else if k = html_CommentNode then ''<!--'' @ d @ ''-->''
      else if k = html_DoctypeNode then ''<!DOCTYPE '' @ d @ ''>''
      else if k = html_DocumentNode then concat (map markup cs)
      else if k = html_ElementNode then
        ''<'' @ d @ render_attrs as @ ''>'' @ concat (map markup cs) @ ''</'' @ d @ ''>''
      else [])"

subsection \<open>Iterators\<close>

text \<open>\<open>yields E t ps\<close>: from the state \<open>t\<close> the iterator gives the positions \<open>ps\<close> and stops.\<close>

fun yields :: "('err, 'exp, 'it) engine \<Rightarrow> 'it \<Rightarrow> xpath_NodeNavigator list \<Rightarrow> bool" where
  "yields E t [] = (\<not> fst (MoveNext E t))"
| "yields E t (p # ps) =
     (fst (MoveNext E t) \<and> iter_Current E (snd (MoveNext E t)) = p
      \<and> yields E (snd (MoveNext E t)) ps)"

text \<open>The callback calls \<^verbatim>\<open>FindEach\<close> makes for the nodes \<open>ns\<close>, counting from \<open>i\<close>.\<close>

fun callbacks :: "(int \<Rightarrow> ref option \<Rightarrow> 's \<Rightarrow> 's) \<Rightarrow> int \<Rightarrow> ref option list \<Rightarrow> 's \<Rightarrow> 's" where
  "callbacks cb i [] s = s"
| "callbacks cb i (n # ns) s = callbacks cb (i + 1) ns (cb i n s)"

text \<open>An engine for examples: any expression but the empty one selects the given positions.\<close>

definition list_engine ::
  "xpath_NodeNavigator list
    \<Rightarrow> (string, string, xpath_NodeNavigator list \<times> xpath_NodeNavigator) engine" where
  "list_engine ps =
     \<lparr>xpath_Compile = (\<lambda>expr. if expr = [] then Inl ''empty expression'' else Inr expr),
      Select = (\<lambda>exp nav. (ps, HtmlNavigator nav)),
      MoveNext = (\<lambda>t. case fst t of [] \<Rightarrow> (False, t) | p # rest \<Rightarrow> (True, (rest, p))),
      iter_Current = snd\<rparr>"

subsection \<open>Example documents\<close>

definition no_node :: Node where
  "no_node =
     \<lparr>Parent = None, FirstChild = None, LastChild = None, PrevSibling = None,
      NextSibling = None, Type = html_ErrorNode, Data = [], Attr = []\<rparr>"

text \<open>
  A document (address 0) with a doctype (1) and the element \<^verbatim>\<open>html\<close> (2, one attribute),
  which holds \<^verbatim>\<open><header><!-- Logo --><h1>City Gallery</h1></header>\<close> (3 to 6) and
  \<^verbatim>\<open><b attr="1" id="x"></b>\<close> (7). Every other address holds an \<^verbatim>\<open>ErrorNode\<close>.
\<close>

definition sample_doc :: heap where
  "sample_doc =
     (\<lambda>_. no_node)
     (0 := no_node\<lparr>Type := html_DocumentNode, FirstChild := Some 1, LastChild := Some 2\<rparr>,
      1 := no_node\<lparr>Type := html_DoctypeNode, Data := ''html'', Parent := Some 0,
             NextSibling := Some 2\<rparr>,
      2 := no_node\<lparr>Type := html_ElementNode, Data := ''html'',
             Attr := [\<lparr>Namespace = [], Key = ''lang'', Val = ''en-US''\<rparr>],
             Parent := Some 0, PrevSibling := Some 1, FirstChild := Some 3, LastChild := Some 7\<rparr>,
      3 := no_node\<lparr>Type := html_ElementNode, Data := ''header'', Parent := Some 2,
             NextSibling := Some 7, FirstChild := Some 4, LastChild := Some 5\<rparr>,
      4 := no_node\<lparr>Type := html_CommentNode, Data := '' Logo '', Parent := Some 3,
             NextSibling := Some 5\<rparr>,
      5 := no_node\<lparr>Type := html_ElementNode, Data := ''h1'', Parent := Some 3,
             PrevSibling := Some 4, FirstChild := Some 6, LastChild := Some 6\<rparr>,
      6 := no_node\<lparr>Type := html_TextNode, Data := ''City Gallery'', Parent := Some 5\<rparr>,
      7 := no_node\<lparr>Type := html_ElementNode, Data := ''b'',
             Attr := [\<lparr>Namespace = [], Key = ''attr'', Val = ''1''\<rparr>,
                      \<lparr>Namespace = [], Key = ''id'', Val = ''x''\<rparr>],
             Parent := Some 2, PrevSibling := Some 3\<rparr>)"

definition header_tree :: dom where
  "header_tree =
     Dom html_ElementNode ''header'' []
       [Dom html_CommentNode '' Logo '' [] [],
        Dom html_ElementNode ''h1'' [] [Dom html_TextNode ''City Gallery'' [] []]]"

text \<open>\<^verbatim>\<open><p>Logo<!--Logo--></p>\<close>: the element at 0, the text at 1, the comment at 2.\<close>

definition logo_doc :: heap where
  "logo_doc =
     (\<lambda>_. no_node)
     (0 := no_node\<lparr>Type := html_ElementNode, Data := ''p'', FirstChild := Some 1,
             LastChild := Some 2\<rparr>,
      1 := no_node\<lparr>Type := html_TextNode, Data := ''Logo'', Parent := Some 0,
             NextSibling := Some 2\<rparr>,
      2 := no_node\<lparr>Type := html_CommentNode, Data := ''Logo'', Parent := Some 0,
             PrevSibling := Some 1\<rparr>)"

definition logo_tree :: dom where
  "logo_tree =
     Dom html_ElementNode ''p'' []
       [Dom html_TextNode ''Logo'' [] [], Dom html_CommentNode ''Logo'' [] []]"

section \<open>Facts about the model\<close>

lemmas html_kinds =
  html_ErrorNode_def html_TextNode_def html_DocumentNode_def
  html_ElementNode_def html_CommentNode_def html_DoctypeNode_def

subsection \<open>Fuel written as a numeral\<close>

lemma output_node_numeral:
  "output_node (numeral v) hp buf n =
     (if Type (hp n) = html_TextNode then Some (buf @ Data (hp n))
      else if Type (hp n) = html_CommentNode then Some buf
      else output_loop (pred_numeral v) hp buf (FirstChild (hp n)))"
  by (simp add: numeral_eq_Suc)

lemma output_loop_numeral:
  "output_loop (numeral v) hp buf None = Some buf"
  "output_loop (numeral v) hp buf (Some child) =
     (case output_node (pred_numeral v) hp buf child of
        None \<Rightarrow> None
      | Some buf' \<Rightarrow> output_loop (pred_numeral v) hp buf' (NextSibling (hp child)))"
  by (simp_all add: numeral_eq_Suc)

lemma render_node_numeral:
  "render_node (numeral v) hp buf n =
     (if Type (hp n) = html_TextNode then Some (buf @ Data (hp n))
      else if Type (hp n) = html_CommentNode then Some (buf @ ''<!--'' @ Data (hp n) @ ''-->'')
      else if Type (hp n) = html_DoctypeNode then Some (buf @ ''<!DOCTYPE '' @ Data (hp n) @ ''>'')
      else if Type (hp n) = html_DocumentNode then
        render_children (pred_numeral v) hp buf (FirstChild (hp n))
      else if Type (hp n) = html_ElementNode then
        (case render_children (pred_numeral v) hp
                (buf @ ''<'' @ Data (hp n) @ render_attrs (Attr (hp n)) @ ''>'')
                (FirstChild (hp n)) of
           None \<Rightarrow> None
         | Some buf' \<Rightarrow> Some (buf' @ ''</'' @ Data (hp n) @ ''>''))
      else Some buf)"
  by (simp add: numeral_eq_Suc)

lemma render_children_numeral:
  "render_children (numeral v) hp buf None = Some buf"
  "render_children (numeral v) hp buf (Some child) =
     (case render_node (pred_numeral v) hp buf child of
        None \<Rightarrow> None
      | Some buf' \<Rightarrow> render_children (pred_numeral v) hp buf' (NextSibling (hp child)))"
  by (simp_all add: numeral_eq_Suc)

subsection \<open>The cursor\<close>

text \<open>
  A navigator made over a nil node has a nil \<open>curr\<close>. Every operation that reads the
  current node then panics, unless it returns before the read.
\<close>

lemma nil_curr_panics:
  assumes "curr h = None" and "attr h = - 1"
  shows "NodeType hp h = Inl NilPointerDereference"
    and "LocalName hp h = Inl NilPointerDereference"
    and "MoveToParent hp h = Inl NilPointerDereference"
    and "MoveToNextAttribute hp h = Inl NilPointerDereference"
    and "MoveToChild hp h = Inl NilPointerDereference"
    and "MoveToNext hp h = Inl NilPointerDereference"
    and "MoveToPrevious hp h = Inl NilPointerDereference"
    and "MoveToFirst hp h = Some (Inl NilPointerDereference)"
  using assms
  by (simp_all add: NodeType_def LocalName_def MoveToParent_def MoveToNextAttribute_def
      MoveToChild_def MoveToNext_def MoveToPrevious_def MoveToFirst_def)

lemma MoveToRoot_fields:
  "curr (MoveToRoot h) = root h \<and> root (MoveToRoot h) = root h \<and> attr (MoveToRoot h) = attr h"
  by (simp add: MoveToRoot_def)

text \<open>
  C1. \<^verbatim>\<open>MoveToRoot\<close> is to put the cursor on the root: \<open>curr = root\<close> and
  \<open>attr = -1\<close>. The code assigns \<open>curr\<close> and nothing else (\<open>MoveToRoot_fields\<close>).
  From the first attribute of \<^verbatim>\<open><b>\<close> in the example document the cursor comes out as
  the document with \<open>attr = 0\<close>: it was an attribute position before, it is not
  the root position after, and \<^verbatim>\<open>LocalName\<close> on it indexes the empty attribute slice of
  the document and panics. \<^verbatim>\<open>CreateXPathNavigator\<close> and \<^verbatim>\<open>MoveTo\<close> set \<open>attr\<close>
  together with \<open>curr\<close>, and \<^verbatim>\<open>MoveToParent\<close> clears it; \<^verbatim>\<open>MoveToRoot\<close> misses it.
\<close>

theorem MoveToRoot_keeps_attr:
  "MoveToRoot \<lparr>root = Some 0, curr = Some 7, attr = 0\<rparr>
     = \<lparr>root = Some 0, curr = Some 0, attr = 0\<rparr>
   \<and> NodeType sample_doc \<lparr>root = Some 0, curr = Some 7, attr = 0\<rparr> = Inr xpath_AttributeNode
   \<and> LocalName sample_doc (MoveToRoot \<lparr>root = Some 0, curr = Some 7, attr = 0\<rparr>)
       = Inl (IndexOutOfRange 0 0)"
  by (simp add: MoveToRoot_def LocalName_def NodeType_def index_attr_def sample_doc_def
      no_node_def html_kinds)

lemma attr_inv_fresh: "attr_inv hp (CreateXPathNavigator top_node)"
  by (simp add: attr_inv_def CreateXPathNavigator_def)

text \<open>
  Where only elements carry attributes, every operation but \<^verbatim>\<open>MoveToRoot\<close> keeps the
  invariant, and \<^verbatim>\<open>MoveToRoot\<close> keeps it when called with \<open>attr = -1\<close>.
\<close>

lemma attr_inv_kept_elsewhere:
  assumes inv: "attr_inv hp h"
    and elems: "\<forall>c. Attr (hp c) \<noteq> [] \<longrightarrow> Type (hp c) = html_ElementNode"
  shows "MoveToParent hp h = Inr (ok, h') \<Longrightarrow> attr_inv hp h'"
    and "MoveToNextAttribute hp h = Inr (ok, h') \<Longrightarrow> attr_inv hp h'"
    and "MoveToChild hp h = Inr (ok, h') \<Longrightarrow> attr_inv hp h'"
    and "MoveToNext hp h = Inr (ok, h') \<Longrightarrow> attr_inv hp h'"
    and "MoveToPrevious hp h = Inr (ok, h') \<Longrightarrow> attr_inv hp h'"
    and "MoveToFirst hp h = Some (Inr (ok, h')) \<Longrightarrow> attr_inv hp h'"
    and "attr_inv hp node \<Longrightarrow> MoveTo h (HtmlNavigator node) = Inr (ok, h') \<Longrightarrow> attr_inv hp h'"
    and "attr_inv hp (Copy h)"
    and "attr h = - 1 \<Longrightarrow> attr_inv hp (MoveToRoot h)"
proof -
  show "attr_inv hp h'" if "MoveToParent hp h = Inr (ok, h')"
    using that inv by (auto simp: MoveToParent_def attr_inv_def split: if_splits option.splits)
  show "attr_inv hp h'" if "MoveToNextAttribute hp h = Inr (ok, h')"
  proof -
    from that obtain c where c: "curr h = Some c"
      by (cases "curr h") (simp_all add: MoveToNextAttribute_def)
    show ?thesis
    proof (cases "attr h \<ge> int (length (Attr (hp c))) - 1")
      case True
      with that c inv show ?thesis by (simp add: MoveToNextAttribute_def)
    next
      case False
      with that c have h': "h' = h\<lparr>attr := attr h + 1\<rparr>" by (simp add: MoveToNextAttribute_def)
      show ?thesis
      proof (cases "attr h = - 1")
        case True
        with False have "Attr (hp c) \<noteq> []" by auto
        with elems have "Type (hp c) = html_ElementNode" by blast
        with h' c show ?thesis by (simp add: attr_inv_def)
      next
        case False
        with inv c h' show ?thesis by (simp add: attr_inv_def)
      qed
    qed
  qed
  show "attr_inv hp h'" if "MoveToChild hp h = Inr (ok, h')"
    using that inv by (auto simp: MoveToChild_def attr_inv_def split: if_splits option.splits)
  show "attr_inv hp h'" if "MoveToNext hp h = Inr (ok, h')"
    using that inv by (auto simp: MoveToNext_def attr_inv_def split: if_splits option.splits)
  show "attr_inv hp h'" if "MoveToPrevious hp h = Inr (ok, h')"
    using that inv by (auto simp: MoveToPrevious_def attr_inv_def split: if_splits option.splits)
  show "attr_inv hp h'" if "MoveToFirst hp h = Some (Inr (ok, h'))"
    using that inv by (auto simp: MoveToFirst_def attr_inv_def split: if_splits option.splits)
  show "attr_inv hp h'" if "attr_inv hp node" "MoveTo h (HtmlNavigator node) = Inr (ok, h')"
    using that inv by (auto simp: MoveTo_def attr_inv_def split: if_splits)
  show "attr_inv hp (Copy h)"
    using inv by (simp add: Copy_def)
  show "attr_inv hp (MoveToRoot h)" if "attr h = - 1"
    using that by (simp add: MoveToRoot_def attr_inv_def)
qed

text \<open>
  C2. The invariant, \<open>attr\<close> differs from \<open>-1\<close> only while the current node is an
  element, is to hold in every state reached from a fresh navigator. The code breaks it
  through \<^verbatim>\<open>MoveToRoot\<close>, the same omission as in C1: on the example document a fresh
  navigator at the document moves to the first child, to the next sibling (the element
  \<^verbatim>\<open>html\<close>) and to its first attribute, the invariant holding all the way, and
  \<^verbatim>\<open>MoveToRoot\<close> then leaves \<open>attr = 0\<close> on the document node.
\<close>

theorem attr_inv_broken_by_MoveToRoot:
  "MoveToChild sample_doc (CreateXPathNavigator (Some 0))
     = Inr (True, \<lparr>root = Some 0, curr = Some 1, attr = - 1\<rparr>)
   \<and> MoveToNext sample_doc \<lparr>root = Some 0, curr = Some 1, attr = - 1\<rparr>
     = Inr (True, \<lparr>root = Some 0, curr = Some 2, attr = - 1\<rparr>)
   \<and> MoveToNextAttribute sample_doc \<lparr>root = Some 0, curr = Some 2, attr = - 1\<rparr>
     = Inr (True, \<lparr>root = Some 0, curr = Some 2, attr = 0\<rparr>)
   \<and> attr_inv sample_doc \<lparr>root = Some 0, curr = Some 2, attr = 0\<rparr>
   \<and> MoveToRoot \<lparr>root = Some 0, curr = Some 2, attr = 0\<rparr>
     = \<lparr>root = Some 0, curr = Some 0, attr = 0\<rparr>
   \<and> Type (sample_doc 0) = html_DocumentNode
   \<and> \<not> attr_inv sample_doc (MoveToRoot \<lparr>root = Some 0, curr = Some 2, attr = 0\<rparr>)"
  by (simp add: MoveToRoot_def MoveToChild_def MoveToNext_def MoveToNextAttribute_def
      CreateXPathNavigator_def attr_inv_def sample_doc_def no_node_def html_kinds)

text \<open>
  C3. \<^verbatim>\<open>MoveToParent\<close>: on an attribute position it clears \<open>attr\<close> and succeeds
  without moving; otherwise it moves to the parent if there is one, and if there is none it
  returns false and leaves the cursor as it was. So after a move from an element to one of
  its attributes it is back on that element. The cursor denotes a node: \<open>curr\<close> is not
  nil (on a nil \<open>curr\<close> with \<open>attr = -1\<close> the dereference panics).
\<close>

theorem MoveToParent_cases:
  "(attr h \<noteq> - 1 \<longrightarrow> MoveToParent hp h = Inr (True, h\<lparr>attr := - 1\<rparr>))
   \<and> (attr h = - 1 \<and> curr h = Some c \<and> Parent (hp c) = Some p
        \<longrightarrow> MoveToParent hp h = Inr (True, h\<lparr>curr := Some p\<rparr>))
   \<and> (attr h = - 1 \<and> curr h = Some c \<and> Parent (hp c) = None
        \<longrightarrow> MoveToParent hp h = Inr (False, h))
   \<and> (attr h = - 1 \<and> MoveToNextAttribute hp h = Inr (True, h')
        \<longrightarrow> MoveToParent hp h' = Inr (True, h))"
proof (intro conjI impI)
  assume "attr h \<noteq> - 1"
  then show "MoveToParent hp h = Inr (True, h\<lparr>attr := - 1\<rparr>)"
    by (simp add: MoveToParent_def)
next
  assume "attr h = - 1 \<and> curr h = Some c \<and> Parent (hp c) = Some p"
  then show "MoveToParent hp h = Inr (True, h\<lparr>curr := Some p\<rparr>)"
    by (simp add: MoveToParent_def)
next
  assume "attr h = - 1 \<and> curr h = Some c \<and> Parent (hp c) = None"
  then show "MoveToParent hp h = Inr (False, h)"
    by (simp add: MoveToParent_def)
next
  assume a: "attr h = - 1 \<and> MoveToNextAttribute hp h = Inr (True, h')"
  then have "h' = h\<lparr>attr := 0\<rparr>"
    by (auto simp: MoveToNextAttribute_def split: option.splits if_splits)
  with a show "MoveToParent hp h' = Inr (True, h)"
    by (simp add: MoveToParent_def)
qed

text \<open>
  C3, on the example document: from \<^verbatim>\<open><b>\<close> to its first attribute and back; from
  \<^verbatim>\<open><b>\<close> to its parent; no move at the document.
\<close>

theorem MoveToParent_cases_witness:
  "MoveToNextAttribute sample_doc \<lparr>root = Some 0, curr = Some 7, attr = - 1\<rparr>
     = Inr (True, \<lparr>root = Some 0, curr = Some 7, attr = 0\<rparr>)
   \<and> MoveToParent sample_doc \<lparr>root = Some 0, curr = Some 7, attr = 0\<rparr>
     = Inr (True, \<lparr>root = Some 0, curr = Some 7, attr = - 1\<rparr>)
   \<and> Parent (sample_doc 7) = Some 2
   \<and> MoveToParent sample_doc \<lparr>root = Some 0, curr = Some 7, attr = - 1\<rparr>
     = Inr (True, \<lparr>root = Some 0, curr = Some 2, attr = - 1\<rparr>)
   \<and> Parent (sample_doc 0) = None
   \<and> MoveToParent sample_doc \<lparr>root = Some 0, curr = Some 0, attr = - 1\<rparr>
     = Inr (False, \<lparr>root = Some 0, curr = Some 0, attr = - 1\<rparr>)"
  using
    MoveToParent_cases [of "\<lparr>root = Some 0, curr = Some 7, attr = - 1\<rparr>" sample_doc 7 2
      "\<lparr>root = Some 0, curr = Some 7, attr = 0\<rparr>"]
    MoveToParent_cases [of "\<lparr>root = Some 0, curr = Some 7, attr = 0\<rparr>" sample_doc]
    MoveToParent_cases [of "\<lparr>root = Some 0, curr = Some 0, attr = - 1\<rparr>" sample_doc 0]
  by (simp add: MoveToNextAttribute_def sample_doc_def no_node_def)

lemma next_attribute_calls_prefix:
  "curr h = Some c \<Longrightarrow> attr h + int n \<le> int (length (Attr (hp c))) - 1 \<Longrightarrow>
   next_attribute_calls n hp h = Inr (replicate n True, h\<lparr>attr := attr h + int n\<rparr>)"
proof (induction n arbitrary: h)
  case 0
  then show ?case by simp
next
  case (Suc n)
  let ?h' = "h\<lparr>attr := attr h + 1\<rparr>"
  from Suc.prems have step: "MoveToNextAttribute hp h = Inr (True, ?h')"
    by (simp add: MoveToNextAttribute_def)
  from Suc.prems have "next_attribute_calls n hp ?h'
      = Inr (replicate n True, ?h'\<lparr>attr := attr ?h' + int n\<rparr>)"
    by (intro Suc.IH) simp_all
  with step show ?case by (simp add: add.assoc add.commute)
qed

lemma next_attribute_calls_append:
  "next_attribute_calls n hp h = Inr (oks, h') \<Longrightarrow> MoveToNextAttribute hp h' = Inr (ok, h'') \<Longrightarrow>
   next_attribute_calls (Suc n) hp h = Inr (oks @ [ok], h'')"
proof (induction n arbitrary: h oks)
  case 0
  then show ?case by simp
next
  case (Suc n)
  from Suc.prems(1) obtain ok0 h1 oks' where
    first: "MoveToNextAttribute hp h = Inr (ok0, h1)" and
    rest: "next_attribute_calls n hp h1 = Inr (oks', h')" and
    oks: "oks = ok0 # oks'"
    by (auto split: sum.splits prod.splits)
  have "next_attribute_calls (Suc n) hp h1 = Inr (oks' @ [ok], h'')"
    using Suc.IH [OF rest Suc.prems(2)] .
  then show ?case
    using first oks by (subst next_attribute_calls.simps(2)) simp
qed

text \<open>
  C4. On a node with \<open>k\<close> attributes and from \<open>attr = -1\<close>, the first \<open>k\<close> calls of
  \<^verbatim>\<open>MoveToNextAttribute\<close> succeed, each adding one to \<open>attr\<close>, and the next call
  returns false and leaves the cursor as it is. In any state the call succeeds exactly when
  \<open>attr < len(Attr) - 1\<close>; a failing call changes nothing. The cursor denotes a node
  (\<open>curr\<close> is not nil).
\<close>

theorem MoveToNextAttribute_enumerates:
  "curr h = Some c \<Longrightarrow> k = length (Attr (hp c)) \<Longrightarrow>
   (attr h = - 1 \<longrightarrow>
      (\<forall>n \<le> k. next_attribute_calls n hp h = Inr (replicate n True, h\<lparr>attr := int n - 1\<rparr>))
      \<and> next_attribute_calls (Suc k) hp h
          = Inr (replicate k True @ [False], h\<lparr>attr := int k - 1\<rparr>))
   \<and> ((\<exists>h'. MoveToNextAttribute hp h = Inr (True, h')) \<longleftrightarrow> attr h < int k - 1)
   \<and> (attr h < int k - 1 \<longrightarrow> MoveToNextAttribute hp h = Inr (True, h\<lparr>attr := attr h + 1\<rparr>))
   \<and> (\<not> attr h < int k - 1 \<longrightarrow> MoveToNextAttribute hp h = Inr (False, h))"
proof -
  assume c: "curr h = Some c" and k: "k = length (Attr (hp c))"
  have pre: "next_attribute_calls n hp h = Inr (replicate n True, h\<lparr>attr := int n - 1\<rparr>)"
    if "attr h = - 1" "n \<le> k" for n
    using next_attribute_calls_prefix [OF c, of n hp] that k by simp
  have last: "MoveToNextAttribute hp (h\<lparr>attr := int k - 1\<rparr>) = Inr (False, h\<lparr>attr := int k - 1\<rparr>)"
    using c k by (simp add: MoveToNextAttribute_def)
  have all: "next_attribute_calls (Suc k) hp h
      = Inr (replicate k True @ [False], h\<lparr>attr := int k - 1\<rparr>)" if "attr h = - 1"
    using next_attribute_calls_append [OF pre [OF that order_refl] last] .
  show ?thesis
    using c k pre all by (auto simp: MoveToNextAttribute_def)
qed

text \<open>C4, on \<^verbatim>\<open><b attr="1" id="x">\<close> of the example document: two calls succeed, the third fails.\<close>

theorem MoveToNextAttribute_enumerates_witness:
  "curr \<lparr>root = Some 0, curr = Some 7, attr = - 1\<rparr> = Some 7
   \<and> length (Attr (sample_doc 7)) = 2
   \<and> next_attribute_calls 1 sample_doc \<lparr>root = Some 0, curr = Some 7, attr = - 1\<rparr>
       = Inr ([True], \<lparr>root = Some 0, curr = Some 7, attr = 0\<rparr>)
   \<and> next_attribute_calls 2 sample_doc \<lparr>root = Some 0, curr = Some 7, attr = - 1\<rparr>
       = Inr ([True, True], \<lparr>root = Some 0, curr = Some 7, attr = 1\<rparr>)
   \<and> next_attribute_calls 3 sample_doc \<lparr>root = Some 0, curr = Some 7, attr = - 1\<rparr>
       = Inr ([True, True, False], \<lparr>root = Some 0, curr = Some 7, attr = 1\<rparr>)
   \<and> MoveToNextAttribute sample_doc \<lparr>root = Some 0, curr = Some 7, attr = 1\<rparr>
       = Inr (False, \<lparr>root = Some 0, curr = Some 7, attr = 1\<rparr>)"
proof -
  have len: "length (Attr (sample_doc 7)) = 2"
    by (simp add: sample_doc_def no_node_def)
  have c: "curr \<lparr>root = Some 0, curr = Some 7, attr = - 1\<rparr> = Some 7" by simp
  have c1: "curr \<lparr>root = Some 0, curr = Some 7, attr = 1\<rparr> = Some 7" by simp
  note w = MoveToNextAttribute_enumerates
    [where h = "\<lparr>root = Some 0, curr = Some 7, attr = - 1\<rparr>" and c = 7 and k = 2
       and hp = sample_doc, OF c len [symmetric]]
  note w1 = MoveToNextAttribute_enumerates
    [where h = "\<lparr>root = Some 0, curr = Some 7, attr = 1\<rparr>" and c = 7 and k = 2
       and hp = sample_doc, OF c1 len [symmetric]]
  from w have upto: "\<forall>n \<le> 2. next_attribute_calls n sample_doc \<lparr>root = Some 0, curr = Some 7, attr = - 1\<rparr>
        = Inr (replicate n True, \<lparr>root = Some 0, curr = Some 7, attr = int n - 1\<rparr>)"
    by simp
  have le: "(1::nat) \<le> 2" "(2::nat) \<le> 2" by simp_all
  note one = upto [rule_format, OF le(1)] and two = upto [rule_format, OF le(2)]
  from w have three: "next_attribute_calls (Suc 2) sample_doc \<lparr>root = Some 0, curr = Some 7, attr = - 1\<rparr>
       = Inr (replicate 2 True @ [False], \<lparr>root = Some 0, curr = Some 7, attr = 1\<rparr>)"
    by simp
  from w1 have four: "MoveToNextAttribute sample_doc \<lparr>root = Some 0, curr = Some 7, attr = 1\<rparr>
       = Inr (False, \<lparr>root = Some 0, curr = Some 7, attr = 1\<rparr>)"
    by simp
  show ?thesis
    using one two three four len
    by (simp del: next_attribute_calls.simps add: eval_nat_numeral)
qed

text \<open>
  C5. \<^verbatim>\<open>NodeType\<close> maps the kind of the current node: comment to comment, text to text,
  document and doctype to root, element to element, or to attribute when \<open>attr\<close> is not
  \<open>-1\<close>. For a kind outside these five it panics, with the kind in the message, and
  returns no category.
\<close>

theorem NodeType_classification:
  "curr h = Some c \<Longrightarrow>
   (Type (hp c) = html_CommentNode \<longrightarrow> NodeType hp h = Inr xpath_CommentNode)
   \<and> (Type (hp c) = html_TextNode \<longrightarrow> NodeType hp h = Inr xpath_TextNode)
   \<and> (Type (hp c) = html_DocumentNode \<longrightarrow> NodeType hp h = Inr xpath_RootNode)
   \<and> (Type (hp c) = html_DoctypeNode \<longrightarrow> NodeType hp h = Inr xpath_RootNode)
   \<and> (Type (hp c) = html_ElementNode \<and> attr h = - 1 \<longrightarrow> NodeType hp h = Inr xpath_ElementNode)
   \<and> (Type (hp c) = html_ElementNode \<and> attr h \<noteq> - 1 \<longrightarrow> NodeType hp h = Inr xpath_AttributeNode)
   \<and> (Type (hp c) \<notin> {html_CommentNode, html_TextNode, html_DocumentNode, html_DoctypeNode,
                       html_ElementNode}
        \<longrightarrow> NodeType hp h = Inl (UnknownNodeType (Type (hp c))))"
proof -
  assume c: "curr h = Some c"
  have cm: "NodeType hp h = Inr xpath_CommentNode" if "Type (hp c) = html_CommentNode"
    using c that by (simp add: NodeType_def)
  have tx: "NodeType hp h = Inr xpath_TextNode" if "Type (hp c) = html_TextNode"
    using c that by (simp add: NodeType_def html_kinds)
  have dc: "NodeType hp h = Inr xpath_RootNode" if "Type (hp c) = html_DocumentNode"
    using c that by (simp add: NodeType_def html_kinds)
  have dt: "NodeType hp h = Inr xpath_RootNode" if "Type (hp c) = html_DoctypeNode"
    using c that by (simp add: NodeType_def html_kinds)
  have el: "NodeType hp h = Inr (if attr h \<noteq> - 1 then xpath_AttributeNode else xpath_ElementNode)"
    if "Type (hp c) = html_ElementNode"
    using c that by (simp add: NodeType_def html_kinds)
  have ot: "NodeType hp h = Inl (UnknownNodeType (Type (hp c)))"
    if "Type (hp c) \<notin> {html_CommentNode, html_TextNode, html_DocumentNode, html_DoctypeNode,
                       html_ElementNode}"
    using c that by (simp add: NodeType_def)
  from cm tx dc dt el ot show ?thesis
    by (intro conjI impI) simp_all
qed

text \<open>
  C5, on the example document: one cursor for each line of the table, and address 8, whose
  kind is \<^verbatim>\<open>ErrorNode\<close>, for the panic.
\<close>

theorem NodeType_classification_witness:
  "NodeType sample_doc \<lparr>root = Some 0, curr = Some 4, attr = - 1\<rparr> = Inr xpath_CommentNode
   \<and> NodeType sample_doc \<lparr>root = Some 0, curr = Some 6, attr = - 1\<rparr> = Inr xpath_TextNode
   \<and> NodeType sample_doc \<lparr>root = Some 0, curr = Some 0, attr = - 1\<rparr> = Inr xpath_RootNode
   \<and> NodeType sample_doc \<lparr>root = Some 0, curr = Some 1, attr = - 1\<rparr> = Inr xpath_RootNode
   \<and> NodeType sample_doc \<lparr>root = Some 0, curr = Some 7, attr = - 1\<rparr> = Inr xpath_ElementNode
   \<and> NodeType sample_doc \<lparr>root = Some 0, curr = Some 7, attr = 1\<rparr> = Inr xpath_AttributeNode
   \<and> NodeType sample_doc \<lparr>root = Some 0, curr = Some 8, attr = - 1\<rparr>
       = Inl (UnknownNodeType html_ErrorNode)"
  using
    NodeType_classification [of "\<lparr>root = Some 0, curr = Some 4, attr = - 1\<rparr>" 4 sample_doc]
    NodeType_classification [of "\<lparr>root = Some 0, curr = Some 6, attr = - 1\<rparr>" 6 sample_doc]
    NodeType_classification [of "\<lparr>root = Some 0, curr = Some 0, attr = - 1\<rparr>" 0 sample_doc]
    NodeType_classification [of "\<lparr>root = Some 0, curr = Some 1, attr = - 1\<rparr>" 1 sample_doc]
    NodeType_classification [of "\<lparr>root = Some 0, curr = Some 7, attr = - 1\<rparr>" 7 sample_doc]
    NodeType_classification [of "\<lparr>root = Some 0, curr = Some 7, attr = 1\<rparr>" 7 sample_doc]
    NodeType_classification [of "\<lparr>root = Some 0, curr = Some 8, attr = - 1\<rparr>" 8 sample_doc]
  by (simp add: sample_doc_def no_node_def html_kinds)

text \<open>
  C6. \<^verbatim>\<open>MoveTo\<close> succeeds exactly when the other navigator is a \<^verbatim>\<open>NodeNavigator\<close> with the
  same root; it then takes over the other's \<open>curr\<close> and \<open>attr\<close> (and keeps its own
  root). With a different root, or another type of navigator, it returns false, and whenever
  it returns false the cursor is unchanged.
\<close>

theorem MoveTo_same_root:
  "((\<exists>h'. MoveTo h other = Inr (True, h'))
      \<longleftrightarrow> (\<exists>node. other = HtmlNavigator node \<and> root node = root h))
   \<and> (other = HtmlNavigator node \<and> root node = root h
        \<longrightarrow> MoveTo h other = Inr (True, h\<lparr>curr := curr node, attr := attr node\<rparr>))
   \<and> (other = HtmlNavigator node \<and> root node \<noteq> root h \<longrightarrow> MoveTo h other = Inr (False, h))
   \<and> (other = ForeignNavigator \<longrightarrow> MoveTo h other = Inr (False, h))
   \<and> (MoveTo h other = Inr (False, h') \<longrightarrow> h' = h)"
proof (cases other)
  case (HtmlNavigator nav)
  then show ?thesis by (auto simp: MoveTo_def)
next
  case NilHtmlNavigator
  then show ?thesis by (simp add: MoveTo_def)
next
  case ForeignNavigator
  then show ?thesis by (simp add: MoveTo_def)
qed

text \<open>C6: a jump under the same root, a refused one under another root, a foreign navigator.\<close>

theorem MoveTo_same_root_witness:
  "MoveTo \<lparr>root = Some 0, curr = Some 0, attr = - 1\<rparr>
      (HtmlNavigator \<lparr>root = Some 0, curr = Some 7, attr = 1\<rparr>)
     = Inr (True, \<lparr>root = Some 0, curr = Some 7, attr = 1\<rparr>)
   \<and> MoveTo \<lparr>root = Some 0, curr = Some 0, attr = - 1\<rparr>
      (HtmlNavigator \<lparr>root = Some 2, curr = Some 7, attr = 1\<rparr>)
     = Inr (False, \<lparr>root = Some 0, curr = Some 0, attr = - 1\<rparr>)
   \<and> MoveTo \<lparr>root = Some 0, curr = Some 0, attr = - 1\<rparr> ForeignNavigator
     = Inr (False, \<lparr>root = Some 0, curr = Some 0, attr = - 1\<rparr>)"
  using
    MoveTo_same_root [of "\<lparr>root = Some 0, curr = Some 0, attr = - 1\<rparr>"
      "HtmlNavigator \<lparr>root = Some 0, curr = Some 7, attr = 1\<rparr>"
      "\<lparr>root = Some 0, curr = Some 7, attr = 1\<rparr>"]
    MoveTo_same_root [of "\<lparr>root = Some 0, curr = Some 0, attr = - 1\<rparr>"
      "HtmlNavigator \<lparr>root = Some 2, curr = Some 7, attr = 1\<rparr>"
      "\<lparr>root = Some 2, curr = Some 7, attr = 1\<rparr>"]
    MoveTo_same_root [of "\<lparr>root = Some 0, curr = Some 0, attr = - 1\<rparr>" ForeignNavigator]
  by simp

subsection \<open>The first sibling\<close>

lemma prev_linked_nth:
  "prev_linked hp p xs \<Longrightarrow> i < length xs \<Longrightarrow>
   PrevSibling (hp (xs ! i)) = (if i = 0 then p else Some (xs ! (i - 1)))"
proof (induction xs arbitrary: p i)
  case Nil
  then show ?case by simp
next
  case (Cons x xs)
  show ?case
  proof (cases i)
    case 0
    with Cons.prems show ?thesis by simp
  next
    case (Suc j)
    with Cons.prems have "PrevSibling (hp (xs ! j)) = (if j = 0 then Some x else Some (xs ! (j - 1)))"
      by (intro Cons.IH) simp_all
    with Suc show ?thesis by (cases j) simp_all
  qed
qed

lemma first_loop_chain:
  "sibling_chain hp xs \<Longrightarrow> i < length xs \<Longrightarrow> first_loop hp (xs ! i) = Some (xs ! 0)"
proof (induction i)
  case 0
  then have "PrevSibling (hp (xs ! 0)) = None"
    using prev_linked_nth [of hp None xs 0] by (simp add: sibling_chain_def)
  then show ?case by (subst first_loop.simps) simp
next
  case (Suc i)
  then have "PrevSibling (hp (xs ! Suc i)) = Some (xs ! i)"
    using prev_linked_nth [of hp None xs "Suc i"] by (simp add: sibling_chain_def)
  moreover from Suc have "first_loop hp (xs ! i) = Some (xs ! 0)" by simp
  ultimately show ?case by (subst first_loop.simps) simp
qed

lemma first_loop_lands:
  assumes "first_loop hp c = Some c'"
  shows "PrevSibling (hp c') = None"
proof (rule first_loop.raw_induct [where P = "\<lambda>hp c c'. PrevSibling (hp c') = None", OF _ assms])
  fix f :: "heap \<Rightarrow> ref \<Rightarrow> ref option" and hp c c'
  assume ih: "\<And>hp c c'. f hp c = Some c' \<Longrightarrow> PrevSibling (hp c') = None"
    and step: "(case PrevSibling (hp c) of None \<Rightarrow> Some c | Some node \<Rightarrow> f hp node) = Some c'"
  show "PrevSibling (hp c') = None"
  proof (cases "PrevSibling (hp c)")
    case None
    with step show ?thesis by simp
  next
    case (Some node)
    with step have "f hp node = Some c'" by simp
    then show ?thesis by (rule ih)
  qed
qed

lemma MoveToFirst_twice:
  assumes "MoveToFirst hp h = Some (Inr (ok, h'))"
  shows "MoveToFirst hp h' = Some (Inr (False, h'))"
proof (cases "attr h \<noteq> - 1")
  case True
  with assms show ?thesis by (simp add: MoveToFirst_def)
next
  case False
  then have a: "attr h = - 1" by simp
  from assms a obtain c where c: "curr h = Some c"
    by (cases "curr h") (simp_all add: MoveToFirst_def)
  show ?thesis
  proof (cases "PrevSibling (hp c)")
    case None
    with assms a c show ?thesis by (simp add: MoveToFirst_def)
  next
    case (Some p)
    with assms a c obtain c' where l: "first_loop hp c = Some c'" and h': "h' = h\<lparr>curr := Some c'\<rparr>"
      by (auto simp: MoveToFirst_def split: option.splits)
    from first_loop_lands [OF l] a h' show ?thesis by (simp add: MoveToFirst_def)
  qed
qed

text \<open>
  C9. \<^verbatim>\<open>MoveToFirst\<close> returns false and changes nothing on an attribute position and on a
  node without a previous sibling. Otherwise, on a chain of siblings, it returns true with
  the cursor on the first of the chain. A second call, after any call that returned, returns
  false and stays: calling it twice ends on the same node as calling it once.
\<close>

theorem MoveToFirst_first_sibling:
  "(attr h \<noteq> - 1 \<longrightarrow> MoveToFirst hp h = Some (Inr (False, h)))
   \<and> (attr h = - 1 \<and> curr h = Some c \<and> PrevSibling (hp c) = None
        \<longrightarrow> MoveToFirst hp h = Some (Inr (False, h)))
   \<and> (attr h = - 1 \<and> sibling_chain hp xs \<and> i < length xs \<and> curr h = Some (xs ! i)
        \<longrightarrow> MoveToFirst hp h = Some (Inr (0 < i, h\<lparr>curr := Some (xs ! 0)\<rparr>)))
   \<and> (MoveToFirst hp h = Some (Inr (ok, h')) \<longrightarrow> MoveToFirst hp h' = Some (Inr (False, h')))"
proof -
  have "MoveToFirst hp h = Some (Inr (0 < i, h\<lparr>curr := Some (xs ! 0)\<rparr>))"
    if a: "attr h = - 1" and ch: "sibling_chain hp xs" and i: "i < length xs"
      and c: "curr h = Some (xs ! i)"
  proof (cases i)
    case 0
    with ch i have "PrevSibling (hp (xs ! 0)) = None"
      using prev_linked_nth [of hp None xs 0] by (simp add: sibling_chain_def)
    with a c 0 show ?thesis by (simp add: MoveToFirst_def)
  next
    case (Suc j)
    with ch i have "PrevSibling (hp (xs ! i)) = Some (xs ! j)"
      using prev_linked_nth [of hp None xs i] by (simp add: sibling_chain_def)
    with a c Suc first_loop_chain [OF ch i] show ?thesis by (simp add: MoveToFirst_def)
  qed
  then show ?thesis
    using MoveToFirst_twice [of hp h ok h'] by (simp add: MoveToFirst_def)
qed

text \<open>
  C9, on the children \<^verbatim>\<open><header>\<close> (3) and \<^verbatim>\<open><b>\<close> (7) of \<^verbatim>\<open>html\<close>: from \<^verbatim>\<open><b>\<close> to
  \<^verbatim>\<open><header>\<close>, no move from there, and no move from an attribute of \<^verbatim>\<open><b>\<close>.
\<close>

theorem MoveToFirst_first_sibling_witness:
  "sibling_chain sample_doc [3, 7]
   \<and> MoveToFirst sample_doc \<lparr>root = Some 0, curr = Some 7, attr = - 1\<rparr>
       = Some (Inr (True, \<lparr>root = Some 0, curr = Some 3, attr = - 1\<rparr>))
   \<and> MoveToFirst sample_doc \<lparr>root = Some 0, curr = Some 3, attr = - 1\<rparr>
       = Some (Inr (False, \<lparr>root = Some 0, curr = Some 3, attr = - 1\<rparr>))
   \<and> MoveToFirst sample_doc \<lparr>root = Some 0, curr = Some 7, attr = 0\<rparr>
       = Some (Inr (False, \<lparr>root = Some 0, curr = Some 7, attr = 0\<rparr>))"
proof -
  have ch: "sibling_chain sample_doc [3, 7]"
    by (simp add: sibling_chain_def sample_doc_def no_node_def)
  note a = MoveToFirst_first_sibling
    [where h = "\<lparr>root = Some 0, curr = Some 7, attr = - 1\<rparr>" and hp = sample_doc
       and xs = "[3, 7]" and i = 1 and ok = True
       and h' = "\<lparr>root = Some 0, curr = Some 3, attr = - 1\<rparr>"]
  note b = MoveToFirst_first_sibling
    [where h = "\<lparr>root = Some 0, curr = Some 7, attr = 0\<rparr>" and hp = sample_doc]
  from a ch have first: "MoveToFirst sample_doc \<lparr>root = Some 0, curr = Some 7, attr = - 1\<rparr>
       = Some (Inr (True, \<lparr>root = Some 0, curr = Some 3, attr = - 1\<rparr>))"
    by simp
  with a have "MoveToFirst sample_doc \<lparr>root = Some 0, curr = Some 3, attr = - 1\<rparr>
       = Some (Inr (False, \<lparr>root = Some 0, curr = Some 3, attr = - 1\<rparr>))"
    by simp
  moreover from b have "MoveToFirst sample_doc \<lparr>root = Some 0, curr = Some 7, attr = 0\<rparr>
       = Some (Inr (False, \<lparr>root = Some 0, curr = Some 7, attr = 0\<rparr>))"
    by simp
  ultimately show ?thesis using ch first by simp
qed

subsection \<open>The facade\<close>

lemma Find_loop_yields:
  "yields E t (map HtmlNavigator navs) \<Longrightarrow>
   Find_loop E t elems = Some (Inr (elems @ map Current navs))"
proof (induction navs arbitrary: t elems)
  case Nil
  then show ?case by (subst Find_loop.simps) simp
next
  case (Cons nav navs)
  then have "Find_loop E (snd (MoveNext E t)) (elems @ [curr nav])
      = Some (Inr ((elems @ [curr nav]) @ map Current navs))"
    by (intro Cons.IH) simp
  with Cons.prems show ?case
    by (subst Find_loop.simps) (simp add: unwrap_def Current_def)
qed

lemma FindEach_loop_yields:
  "yields E t (map HtmlNavigator navs) \<Longrightarrow>
   FindEach_loop E cb t i s = Some (Inr (callbacks cb i (map Current navs) s))"
proof (induction navs arbitrary: t i s)
  case Nil
  then show ?case by (subst FindEach_loop.simps) simp
next
  case (Cons nav navs)
  then have "FindEach_loop E cb (snd (MoveNext E t)) (i + 1) (cb i (curr nav) s)
      = Some (Inr (callbacks cb (i + 1) (map Current navs) (cb i (curr nav) s)))"
    by (intro Cons.IH) simp
  with Cons.prems show ?case
    by (subst FindEach_loop.simps) (simp add: unwrap_def Current_def)
qed

text \<open>
  C10. When the expression compiles and the engine gives the positions \<open>navs\<close>, all
  navigators of this package, \<^verbatim>\<open>Find\<close> returns their current nodes in that order,
  \<^verbatim>\<open>FindOne\<close> the current node of the first (nil if there is none) and \<^verbatim>\<open>FindEach\<close> calls
  the callback with them, counting from 0. \<open>attr\<close> plays no part: a position on an
  attribute gives the node of the element that owns it, the same node as the position
  with \<open>attr = -1\<close>.
\<close>

theorem facade_unwraps_Current:
  assumes "xpath_Compile E expr = Inr exp"
    and "yields E (Select E exp (CreateXPathNavigator top_node)) (map HtmlNavigator navs)"
  shows "Find E top_node expr = Some (Inr (Inr (map Current navs)))
    \<and> FindOne E top_node expr = Inr (Inr (case navs of [] \<Rightarrow> None | nav # _ \<Rightarrow> Current nav))
    \<and> FindEach E top_node expr cb s = Some (Inr (None, callbacks cb 0 (map Current navs) s))
    \<and> (\<forall>nav \<in> set navs. Current nav = curr nav
          \<and> Current (nav\<lparr>attr := - 1\<rparr>) = Current nav)"
proof -
  have "Find E top_node expr = Some (Inr (Inr (map Current navs)))"
    using assms Find_loop_yields [OF assms(2), of "[]"] by (simp add: Find_def)
  moreover have "FindOne E top_node expr
      = Inr (Inr (case navs of [] \<Rightarrow> None | nav # _ \<Rightarrow> Current nav))"
    using assms by (cases navs) (simp_all add: FindOne_def unwrap_def Current_def Let_def)
  moreover have "FindEach E top_node expr cb s
      = Some (Inr (None, callbacks cb 0 (map Current navs) s))"
    using assms FindEach_loop_yields [OF assms(2), of cb 0 s] by (simp add: FindEach_def)
  ultimately show ?thesis by (simp add: Current_def)
qed

text \<open>
  C10: the engine yields the attribute positions \<open>(html, 0)\<close> and \<open>(b, 1)\<close> of the example
  document; the facade returns the two elements.
\<close>

theorem facade_unwraps_Current_witness:
  "Find (list_engine [HtmlNavigator \<lparr>root = Some 0, curr = Some 2, attr = 0\<rparr>,
                      HtmlNavigator \<lparr>root = Some 0, curr = Some 7, attr = 1\<rparr>])
        (Some 0) ''//@*''
     = Some (Inr (Inr [Some 2, Some 7]))
   \<and> FindOne (list_engine [HtmlNavigator \<lparr>root = Some 0, curr = Some 2, attr = 0\<rparr>,
                      HtmlNavigator \<lparr>root = Some 0, curr = Some 7, attr = 1\<rparr>])
        (Some 0) ''//@*''
     = Inr (Inr (Some 2))
   \<and> FindEach (list_engine [HtmlNavigator \<lparr>root = Some 0, curr = Some 2, attr = 0\<rparr>,
                      HtmlNavigator \<lparr>root = Some 0, curr = Some 7, attr = 1\<rparr>])
        (Some 0) ''//@*'' (\<lambda>i n s. s @ [(i, n)]) []
     = Some (Inr (None, [(0, Some 2), (1, Some 7)]))"
proof -
  let ?E = "list_engine [HtmlNavigator \<lparr>root = Some 0, curr = Some 2, attr = 0\<rparr>,
                      HtmlNavigator \<lparr>root = Some 0, curr = Some 7, attr = 1\<rparr>]"
  have comp: "xpath_Compile ?E ''//@*'' = Inr ''//@*''"
    by (simp add: list_engine_def)
  have ys: "yields ?E (Select ?E ''//@*'' (CreateXPathNavigator (Some 0)))
      (map HtmlNavigator [\<lparr>root = Some 0, curr = Some 2, attr = 0\<rparr>,
                          \<lparr>root = Some 0, curr = Some 7, attr = 1\<rparr>])"
    by (simp add: list_engine_def)
  show ?thesis
    using facade_unwraps_Current [OF comp ys, of "\<lambda>i n s. s @ [(i, n)]" "[]"]
    by (simp add: Current_def)
qed

subsection \<open>Text extraction\<close>

lemma nodes_pos: "0 < nodes t"
  by (cases t) simp

lemma output_tree:
  "tree_at hp n t \<Longrightarrow> fuel t \<le> k \<Longrightarrow> output_node k hp buf n = Some (buf @ text_of t)"
  "chain_at hp p ts \<Longrightarrow> Suc (2 * sum_list (map nodes ts)) \<le> k \<Longrightarrow>
     output_loop k hp buf p = Some (buf @ concat (map text_of ts))"
proof (induction hp n t and hp p ts arbitrary: k buf and k buf rule: tree_at_chain_at.induct)
  case (1 hp n kd d ats cs)
  from "1.prems"(2) obtain k' where k: "k = Suc k'" and k': "Suc (2 * sum_list (map nodes cs)) \<le> k'"
    by (cases k) (simp_all add: fuel_def)
  from "1.prems"(1) have ch: "chain_at hp (FirstChild (hp n)) cs" by simp
  have "output_loop k' hp buf (FirstChild (hp n)) = Some (buf @ concat (map text_of cs))"
    using "1.IH" [OF ch k'] .
  with "1.prems"(1) k show ?case by simp
next
  case (2 hp p)
  then obtain k' where "k = Suc k'" by (cases k) simp_all
  with 2 show ?case by simp
next
  case (3 hp p t ts)
  from "3.prems"(1) obtain c where p: "p = Some c" and t: "tree_at hp c t"
    and ts: "chain_at hp (NextSibling (hp c)) ts"
    by (cases p) simp_all
  from "3.prems"(2) obtain k' where k: "k = Suc k'"
    and k': "2 * nodes t + 2 * sum_list (map nodes ts) \<le> k'"
    by (cases k) simp_all
  from k' have f: "fuel t \<le> k'" by (simp add: fuel_def)
  from k' nodes_pos [of t] have r: "Suc (2 * sum_list (map nodes ts)) \<le> k'" by simp
  have "output_node k' hp buf c = Some (buf @ text_of t)"
    using "3.IH"(1) [OF p t f] .
  moreover have "output_loop k' hp (buf @ text_of t) (NextSibling (hp c))
      = Some ((buf @ text_of t) @ concat (map text_of ts))"
    using "3.IH"(2) [OF p ts r] .
  ultimately show ?case using p k by simp
qed

lemma InnerText_tree:
  "tree_at hp n t \<Longrightarrow> fuel t \<le> k \<Longrightarrow> InnerText k hp (Some n) = Some (Inr (text_of t))"
  using output_tree(1) [of hp n t k "[]"] by (simp add: InnerText_def)

lemma visible_flat:
  "concat (map content (filter (\<lambda>d. kind d = html_TextNode) (concat (map visible ts))))
   = concat (map spec_text ts)"
  by (induction ts) (simp_all add: spec_text_def)

lemma spec_text_Dom:
  "spec_text (Dom k d ats cs) =
     (if k = html_CommentNode then []
      else (if k = html_TextNode then d else []) @ concat (map spec_text cs))"
  by (subst spec_text_def) (simp add: visible_flat)

lemma text_of_spec_text: "text_leaves t \<Longrightarrow> text_of t = spec_text t"
proof (induction t)
  case (Dom k d ats cs)
  have "map text_of cs = map spec_text cs"
    using Dom by (intro map_cong refl) (simp add: list_all_iff)
  with Dom.prems show ?case
    by (simp add: spec_text_Dom html_kinds del: map_eq_conv)
qed

lemma text_of_blank: "text_of (blank_comments t) = text_of t"
proof (induction t)
  case (Dom k d ats cs)
  have "map (text_of \<circ> blank_comments) cs = map text_of cs"
    using Dom by (intro map_cong refl) simp
  then show ?case by (simp add: html_kinds del: map_eq_conv)
qed

text \<open>
  Why \<open>text_leaves\<close>: \<^verbatim>\<open>output\<close> returns as soon as it has written a text node, so a
  text node below a text node is in the subtree and is not written.
\<close>

lemma text_child_not_visited:
  "text_of (Dom html_TextNode ''a'' [] [Dom html_TextNode ''b'' [] []]) = ''a''
   \<and> spec_text (Dom html_TextNode ''a'' [] [Dom html_TextNode ''b'' [] []]) = ''ab''"
  by (simp add: spec_text_def html_kinds)

text \<open>
  C7, as stated, fails: the result of \<^verbatim>\<open>InnerText\<close> is to never include the content of a
  comment of the subtree. For \<^verbatim>\<open><p>Logo<!--Logo--></p>\<close> the result is \<^verbatim>\<open>Logo\<close>, which is
  the content of the comment: the text node spells it.
\<close>

theorem InnerText_includes_comment_text:
  "Type (logo_doc 2) = html_CommentNode \<and> Parent (logo_doc 2) = Some 0
   \<and> Data (logo_doc 2) = ''Logo''
   \<and> InnerText 6 logo_doc (Some 0) = Some (Inr ''Logo'')
   \<and> sublist (Data (logo_doc 2)) ''Logo''"
  by (simp add: InnerText_def output_node_numeral output_loop_numeral logo_doc_def no_node_def
      html_kinds)

text \<open>
  C7, amended. On a tree in the heap whose text nodes are leaves, \<^verbatim>\<open>InnerText\<close> returns
  (with fuel for the size of the tree) the data of every text node of the subtree in
  document order, comments and their subtrees skipped, and no markup. No comment is
  written: on another tree that differs in its comments only the result is the same.
  The result includes the characters of a comment only where text nodes supply them.
  (\<^verbatim>\<open>output\<close> returns after writing a text node, so children of a text node, which the
  parser never makes, are not visited; \<open>InnerText_tree\<close> covers such trees.)
\<close>

theorem InnerText_spec_text:
  assumes "tree_at hp n t" and "text_leaves t" and "fuel t \<le> k"
  shows "InnerText k hp (Some n) = Some (Inr (spec_text t))
    \<and> (tree_at hp' n' t' \<and> blank_comments t' = blank_comments t \<and> fuel t' \<le> k'
         \<longrightarrow> InnerText k' hp' (Some n') = InnerText k hp (Some n))"
proof -
  have a: "InnerText k hp (Some n) = Some (Inr (text_of t))"
    using assms(1,3) by (rule InnerText_tree)
  have "InnerText k' hp' (Some n') = InnerText k hp (Some n)"
    if "tree_at hp' n' t'" "blank_comments t' = blank_comments t" "fuel t' \<le> k'"
  proof -
    have "text_of t' = text_of t"
      using that(2) text_of_blank [of t] text_of_blank [of t'] by simp
    then show ?thesis using a InnerText_tree [OF that(1,3)] by simp
  qed
  with a text_of_spec_text [OF assms(2)] show ?thesis by simp
qed

text \<open>
  C7, on \<^verbatim>\<open><header>\<close> of the example document, and on the same document with the comment
  rewritten.
\<close>

theorem InnerText_spec_text_witness:
  "tree_at sample_doc 3 header_tree \<and> text_leaves header_tree \<and> fuel header_tree \<le> 8
   \<and> InnerText 8 sample_doc (Some 3) = Some (Inr ''City Gallery'')
   \<and> InnerText 8 (sample_doc(4 := (sample_doc 4)\<lparr>Data := ''edited''\<rparr>)) (Some 3)
       = Some (Inr ''City Gallery'')"
proof -
  let ?hp' = "sample_doc(4 := (sample_doc 4)\<lparr>Data := ''edited''\<rparr>)"
  let ?t' = "Dom html_ElementNode ''header'' []
       [Dom html_CommentNode ''edited'' [] [],
        Dom html_ElementNode ''h1'' [] [Dom html_TextNode ''City Gallery'' [] []]]"
  have t: "tree_at sample_doc 3 header_tree"
    by (simp add: header_tree_def sample_doc_def no_node_def)
  have tl: "text_leaves header_tree"
    by (simp add: header_tree_def html_kinds)
  have f: "fuel header_tree \<le> 8"
    by (simp add: header_tree_def fuel_def)
  have t': "tree_at ?hp' 3 ?t'"
    by (simp add: sample_doc_def no_node_def)
  have b: "blank_comments ?t' = blank_comments header_tree"
    by (simp add: header_tree_def html_kinds)
  have f': "fuel ?t' \<le> 8"
    by (simp add: fuel_def)
  have s: "spec_text header_tree = ''City Gallery''"
    by (simp add: header_tree_def spec_text_def html_kinds)
  show ?thesis
    using InnerText_spec_text [OF t tl f, of ?hp' 3 ?t' 8] t tl f t' b f' s by simp
qed

subsection \<open>Serialization\<close>

lemma render_tree:
  "tree_at hp n t \<Longrightarrow> fuel t \<le> k \<Longrightarrow> render_node k hp buf n = Some (buf @ markup t)"
  "chain_at hp p ts \<Longrightarrow> Suc (2 * sum_list (map nodes ts)) \<le> k \<Longrightarrow>
     render_children k hp buf p = Some (buf @ concat (map markup ts))"
proof (induction hp n t and hp p ts arbitrary: k buf and k buf rule: tree_at_chain_at.induct)
  case (1 hp n kd d ats cs)
  from "1.prems"(2) obtain k' where k: "k = Suc k'" and k': "Suc (2 * sum_list (map nodes cs)) \<le> k'"
    by (cases k) (simp_all add: fuel_def)
  from "1.prems"(1) have ch: "chain_at hp (FirstChild (hp n)) cs" by simp
  have "render_children k' hp b (FirstChild (hp n)) = Some (b @ concat (map markup cs))" for b
    using "1.IH" [OF ch k'] .
  with "1.prems"(1) k show ?case by simp
next
  case (2 hp p)
  then obtain k' where "k = Suc k'" by (cases k) simp_all
  with 2 show ?case by simp
next
  case (3 hp p t ts)
  from "3.prems"(1) obtain c where p: "p = Some c" and t: "tree_at hp c t"
    and ts: "chain_at hp (NextSibling (hp c)) ts"
    by (cases p) simp_all
  from "3.prems"(2) obtain k' where k: "k = Suc k'"
    and k': "2 * nodes t + 2 * sum_list (map nodes ts) \<le> k'"
    by (cases k) simp_all
  from k' have f: "fuel t \<le> k'" by (simp add: fuel_def)
  from k' nodes_pos [of t] have r: "Suc (2 * sum_list (map nodes ts)) \<le> k'" by simp
  have "render_node k' hp buf c = Some (buf @ markup t)"
    using "3.IH"(1) [OF p t f] .
  moreover have "render_children k' hp (buf @ markup t) (NextSibling (hp c))
      = Some ((buf @ markup t) @ concat (map markup ts))"
    using "3.IH"(2) [OF p ts r] .
  ultimately show ?case using p k by simp
qed

lemma Render_tree:
  "tree_at hp n t \<Longrightarrow> fuel t \<le> k \<Longrightarrow> Render k hp buf (Some n) = Some (Inr (buf @ markup t))"
  using render_tree(1) [of hp n t k buf] by (simp add: Render_def)

lemma OutputHTML_loop_chain:
  "chain_at hp p ts \<Longrightarrow> \<forall>t \<in> set ts. fuel t \<le> k \<Longrightarrow>
   OutputHTML_loop (Render k) hp p buf = Some (Inr (buf @ concat (map markup ts)))"
proof (induction ts arbitrary: p buf)
  case Nil
  then show ?case by (subst OutputHTML_loop.simps) simp
next
  case (Cons t ts)
  from Cons.prems(1) obtain c where p: "p = Some c" and t: "tree_at hp c t"
    and ts: "chain_at hp (NextSibling (hp c)) ts"
    by (cases p) simp_all
  from Cons.prems(2) have "fuel t \<le> k" by simp
  then have r: "Render k hp buf (Some c) = Some (Inr (buf @ markup t))"
    using t by (intro Render_tree)
  have "OutputHTML_loop (Render k) hp (NextSibling (hp c)) (buf @ markup t)
      = Some (Inr ((buf @ markup t) @ concat (map markup ts)))"
    using Cons.prems(2) by (intro Cons.IH ts) simp
  with p r show ?case by (subst OutputHTML_loop.simps) simp
qed

lemma fuel_child: "c \<in> set cs \<Longrightarrow> fuel c \<le> fuel (Dom k d ats cs)"
proof -
  assume "c \<in> set cs"
  then have "nodes c \<le> sum_list (map nodes cs)"
    by (induction cs) auto
  then show ?thesis by (simp add: fuel_def)
qed

lemma sublist_trans: "sublist xs ys \<Longrightarrow> sublist ys zs \<Longrightarrow> sublist xs zs"
  by (meson sublist_order.order_trans)

lemma sublist_concat: "x \<in> set xs \<Longrightarrow> sublist x (concat xs)"
proof (induction xs)
  case Nil
  then show ?case by simp
next
  case (Cons y ys)
  show ?case
  proof (cases "x = y")
    case True
    then show ?thesis by simp
  next
    case False
    with Cons have "sublist x (concat ys)" by simp
    then obtain ps ss where "concat ys = ps @ x @ ss" by (auto simp: sublist_def)
    then have "concat (y # ys) = (y @ ps) @ x @ ss" by simp
    then show ?thesis unfolding sublist_def by blast
  qed
qed

lemma markup_shows_comments:
  "leaf_kinds t \<Longrightarrow> c \<in> set (subtree t) \<Longrightarrow> kind c = html_CommentNode \<Longrightarrow>
   sublist (content c) (markup t)"
proof (induction t)
  case (Dom k d ats cs)
  show ?case
  proof (cases "c = Dom k d ats cs")
    case True
    have "sublist d (''<!--'' @ d @ ''-->'')"
      by (rule sublist_appendI)
    with True Dom.prems(3) show ?thesis by (simp add: html_kinds)
  next
    case False
    with Dom.prems(2) obtain ch where ch: "ch \<in> set cs" and c: "c \<in> set (subtree ch)"
      by auto
    from Dom.prems(1) ch have lk: "leaf_kinds ch" and k: "k = html_DocumentNode \<or> k = html_ElementNode"
      by (auto simp: list_all_iff)
    have "sublist (content c) (markup ch)"
      using Dom.IH [OF ch lk c Dom.prems(3)] .
    moreover have "sublist (markup ch) (concat (map markup cs))"
      using ch by (intro sublist_concat) simp
    ultimately have inner: "sublist (content c) (concat (map markup cs))"
      by (rule sublist_trans)
    from k show ?thesis
    proof
      assume "k = html_DocumentNode"
      with inner show ?thesis by (simp add: html_kinds)
    next
      assume e: "k = html_ElementNode"
      have "sublist (concat (map markup cs))
          ((''<'' @ d @ render_attrs ats @ ''>'') @ concat (map markup cs) @ (''</'' @ d @ ''>''))"
        by (rule sublist_appendI)
      with inner have "sublist (content c)
          ((''<'' @ d @ render_attrs ats @ ''>'') @ concat (map markup cs) @ (''</'' @ d @ ''>''))"
        by (rule sublist_trans)
      with e show ?thesis by (simp add: html_kinds)
    qed
  qed
qed

lemma leaf_kinds_text_leaves: "leaf_kinds t \<Longrightarrow> text_leaves t"
proof (induction t)
  case (Dom k d ats cs)
  then show ?case by (auto simp: list_all_iff html_kinds)
qed

text \<open>
  C8, as stated, fails in its last part: \<^verbatim>\<open>OutputHTML\<close> with \<open>self = true\<close> is to include
  the text of a comment of the subtree and \<^verbatim>\<open>InnerText\<close> on the same node to exclude it.
  For \<^verbatim>\<open><p>Logo<!--Logo--></p>\<close> the serialization includes the comment, and the
  extracted text, \<^verbatim>\<open>Logo\<close>, includes its content as well.
\<close>

theorem OutputHTML_and_InnerText_include_comment:
  "Type (logo_doc 2) = html_CommentNode \<and> Parent (logo_doc 2) = Some 0
   \<and> Data (logo_doc 2) = ''Logo''
   \<and> OutputHTML (Render 6) logo_doc (Some 0) True = Some (Inr ''<p>Logo<!--Logo--></p>'')
   \<and> sublist (Data (logo_doc 2)) ''<p>Logo<!--Logo--></p>''
   \<and> InnerText 6 logo_doc (Some 0) = Some (Inr ''Logo'')
   \<and> sublist (Data (logo_doc 2)) ''Logo''"
proof -
  have "sublist ''Logo'' (''<p>Logo<!--'' @ ''Logo'' @ ''--></p>'')"
    by (rule sublist_appendI)
  then have s: "sublist ''Logo'' ''<p>Logo<!--Logo--></p>''" by simp
  have d: "Type (logo_doc 2) = html_CommentNode" "Parent (logo_doc 2) = Some 0"
    "Data (logo_doc 2) = ''Logo''"
    by (simp_all add: logo_doc_def no_node_def html_kinds)
  have r: "Render 6 logo_doc [] (Some 0) = Some (Inr ''<p>Logo<!--Logo--></p>'')"
    by (simp add: Render_def render_node_numeral render_children_numeral logo_doc_def
        no_node_def html_kinds)
  then have o: "OutputHTML (Render 6) logo_doc (Some 0) True
      = Some (Inr ''<p>Logo<!--Logo--></p>'')"
    by (simp add: OutputHTML_def)
  have i: "InnerText 6 logo_doc (Some 0) = Some (Inr ''Logo'')"
    by (simp add: InnerText_def output_node_numeral output_loop_numeral logo_doc_def
        no_node_def html_kinds)
  have s': "sublist ''Logo'' ''Logo''" by simp
  show ?thesis
    by (simp only: d o i s s' simp_thms)
qed

text \<open>
  C8, amended. On a tree in the heap in which only documents and elements have children,
  and with the renderer as modelled: \<^verbatim>\<open>OutputHTML\<close> with \<open>self = true\<close> gives the markup of
  the node, for an element its start tag, the markup of the children in order and its end
  tag; with \<open>self = false\<close> it gives the markup of the children in order and no tag of the
  node itself. The markup includes the content of every comment of the subtree.
  \<^verbatim>\<open>InnerText\<close> on the same node writes no comment: its result is the text of the tree with
  every comment emptied (and includes the characters of a comment only where text nodes
  supply them).
\<close>

theorem OutputHTML_markup:
  assumes "tree_at hp n t" and "leaf_kinds t" and "fuel t \<le> k"
  shows "OutputHTML (Render k) hp (Some n) True = Some (Inr (markup t))
    \<and> OutputHTML (Render k) hp (Some n) False = Some (Inr (concat (map markup (children t))))
    \<and> (kind t = html_ElementNode \<longrightarrow>
         markup t = ''<'' @ content t @ render_attrs (attributes t) @ ''>''
                    @ concat (map markup (children t)) @ ''</'' @ content t @ ''>'')
    \<and> (\<forall>c \<in> set (subtree t). kind c = html_CommentNode \<longrightarrow> sublist (content c) (markup t))
    \<and> InnerText k hp (Some n) = Some (Inr (spec_text (blank_comments t)))"
proof -
  obtain kd d ats cs where t: "t = Dom kd d ats cs" by (cases t)
  have self: "OutputHTML (Render k) hp (Some n) True = Some (Inr (markup t))"
    using Render_tree [OF assms(1,3), of "[]"] by (simp add: OutputHTML_def)
  from assms(1) t have ch: "chain_at hp (FirstChild (hp n)) cs" by simp
  have "\<forall>c \<in> set cs. fuel c \<le> k"
    using fuel_child [of _ cs kd d ats] assms(3) t by (auto intro: order_trans)
  then have inner: "OutputHTML (Render k) hp (Some n) False = Some (Inr (concat (map markup (children t))))"
    using OutputHTML_loop_chain [OF ch, of k "[]"] t by (simp add: OutputHTML_def)
  have tag: "kind t = html_ElementNode \<longrightarrow>
         markup t = ''<'' @ content t @ render_attrs (attributes t) @ ''>''
                    @ concat (map markup (children t)) @ ''</'' @ content t @ ''>''"
    using t by (simp add: html_kinds)
  have com: "\<forall>c \<in> set (subtree t). kind c = html_CommentNode \<longrightarrow> sublist (content c) (markup t)"
    using markup_shows_comments [OF assms(2)] by blast
  have "text_of t = text_of (blank_comments t)" by (simp add: text_of_blank)
  have "InnerText k hp (Some n) = Some (Inr (text_of t))"
    using assms(1,3) by (rule InnerText_tree)
  moreover have "text_of t = spec_text t"
    using assms(2) by (intro text_of_spec_text leaf_kinds_text_leaves)
  moreover have "spec_text (blank_comments t) = spec_text t"
  proof -
    have "spec_text (blank_comments u) = spec_text u" for u
    proof (induction u)
      case (Dom k d ats cs)
      have "map (spec_text \<circ> blank_comments) cs = map spec_text cs"
        using Dom by (intro map_cong refl) simp
      then show ?case by (simp add: spec_text_Dom del: map_eq_conv)
    qed
    then show ?thesis .
  qed
  ultimately have "InnerText k hp (Some n) = Some (Inr (spec_text (blank_comments t)))"
    by simp
  with self inner tag com show ?thesis by blast
qed

text \<open>C8, on \<^verbatim>\<open><header>\<close> of the example document.\<close>

theorem OutputHTML_markup_witness:
  "tree_at sample_doc 3 header_tree \<and> leaf_kinds header_tree \<and> fuel header_tree \<le> 8
   \<and> OutputHTML (Render 8) sample_doc (Some 3) True
       = Some (Inr ''<header><!-- Logo --><h1>City Gallery</h1></header>'')
   \<and> OutputHTML (Render 8) sample_doc (Some 3) False
       = Some (Inr ''<!-- Logo --><h1>City Gallery</h1>'')
   \<and> sublist '' Logo '' ''<header><!-- Logo --><h1>City Gallery</h1></header>''
   \<and> InnerText 8 sample_doc (Some 3) = Some (Inr ''City Gallery'')"
proof -
  have t: "tree_at sample_doc 3 header_tree"
    by (simp add: header_tree_def sample_doc_def no_node_def)
  have lk: "leaf_kinds header_tree"
    by (simp add: header_tree_def html_kinds)
  have f: "fuel header_tree \<le> 8"
    by (simp add: header_tree_def fuel_def)
  note w = OutputHTML_markup [OF t lk f]
  have m: "markup header_tree = ''<header><!-- Logo --><h1>City Gallery</h1></header>''"
    by (simp add: header_tree_def html_kinds)
  have ms: "concat (map markup (children header_tree)) = ''<!-- Logo --><h1>City Gallery</h1>''"
    by (simp add: header_tree_def html_kinds)
  have s: "spec_text (blank_comments header_tree) = ''City Gallery''"
    by (simp add: header_tree_def spec_text_def html_kinds)
  have c: "Dom html_CommentNode '' Logo '' [] [] \<in> set (subtree header_tree)"
    by (simp add: header_tree_def)
  from w have every: "\<forall>c \<in> set (subtree header_tree).
      kind c = html_CommentNode \<longrightarrow> sublist (content c) (markup header_tree)"
    by blast
  have "sublist (content (Dom html_CommentNode '' Logo '' [] [])) (markup header_tree)"
    using every [rule_format, OF c] by simp
  then have sub: "sublist '' Logo '' ''<header><!-- Logo --><h1>City Gallery</h1></header>''"
    by (simp only: m dom.sel)
  from w m have o1: "OutputHTML (Render 8) sample_doc (Some 3) True
       = Some (Inr ''<header><!-- Logo --><h1>City Gallery</h1></header>'')"
    by simp
  from w ms have o2: "OutputHTML (Render 8) sample_doc (Some 3) False
       = Some (Inr ''<!-- Logo --><h1>City Gallery</h1>'')"
    by simp
  from w s have o3: "InnerText 8 sample_doc (Some 3) = Some (Inr ''City Gallery'')"
    by simp
  show ?thesis
    by (intro conjI t lk f o1 o2 sub o3)
qed

end
